theory Spec2Isabelle
  imports Main
begin

section \<open>Value objects\<close>

text \<open>
  The two value classes of \<^verbatim>\<open>transaction_executor.py\<close>. Python integers are unbounded,
  so balances and changes are \<^typ>\<open>int\<close>. Both classes have a field \<open>name\<close>; the
  selectors are written with their class, \<open>AccountValue.name\<close> and \<open>AccountUpdate.name\<close>.
\<close>

datatype AccountValue = AccountValue (name: string) (balance: int)

datatype AccountUpdate = AccountUpdate (name: string) (balance_change: int)

section \<open>The dictionary of accounts\<close>

text \<open>
  \<^verbatim>\<open>AccountState.accounts\<close> is a Python \<^verbatim>\<open>dict\<close> from names to balances. A dict keeps
  its keys in the order they were first inserted, and \<^verbatim>\<open>execute_block\<close> returns
  \<^verbatim>\<open>accounts.items()\<close> in that order, so the dict is an association list in insertion
  order. Reading is \<^const>\<open>map_of\<close>: the first entry of a key.
\<close>

type_synonym accounts = "(string \<times> int) list"

text \<open>\<^verbatim>\<open>accounts.get(name, default)\<close>\<close>

definition dict_get :: "accounts \<Rightarrow> string \<Rightarrow> int \<Rightarrow> int" where
  "dict_get accs k d = (case map_of accs k of None \<Rightarrow> d | Some b \<Rightarrow> b)"

text \<open>
  \<^verbatim>\<open>accounts[name] = v\<close>: a key that is present keeps its place and takes the new value,
  a new key goes to the end.
\<close>

fun dict_setitem :: "accounts \<Rightarrow> string \<Rightarrow> int \<Rightarrow> accounts" where
  "dict_setitem [] k v = [(k, v)]"
| "dict_setitem ((k', v') # accs) k v =
     (if k' = k then (k, v) # accs else (k', v') # dict_setitem accs k v)"

text \<open>
  The comprehension \<^verbatim>\<open>{av.name: av.balance for av in values}\<close> of \<^verbatim>\<open>execute_block\<close>:
  the items are stored one after the other, from the empty dict.
\<close>

definition dict_of_values :: "AccountValue list \<Rightarrow> accounts" where
  "dict_of_values vals =
     foldl (\<lambda>accs av. dict_setitem accs (AccountValue.name av) (balance av)) [] vals"

section \<open>AccountState\<close>

text \<open>
  An \<^verbatim>\<open>AccountState\<close> is its dict and a lock. Both methods hold the lock from their
  first statement to their last, so each call is one atomic step on the dict: the methods
  are functions from the dict before the call to the result and the dict after it.
\<close>

text \<open>\<^verbatim>\<open>get_account\<close> (lines 25-28) reads and changes nothing.\<close>

definition get_account :: "accounts \<Rightarrow> string \<Rightarrow> AccountValue" where
  "get_account accs nm = (let balance = dict_get accs nm 0 in AccountValue nm balance)"

text \<open>
  What a Python call returns where the source has a bare \<^verbatim>\<open>return\<close> or runs off the
  end of the body: \<^verbatim>\<open>None\<close>. \<open>PyBool\<close> is the value a \<^verbatim>\<open>return True\<close> would give.
\<close>

datatype pyval = PyNone | PyBool bool

text \<open>
  The first loop of \<^verbatim>\<open>execute_updates\<close> (lines 33-36). The dict is not written in this
  loop, so every update is checked against the same \<open>accs\<close>. \<open>False\<close> is the early
  \<^verbatim>\<open>return\<close> of line 36, \<open>True\<close> is the loop running to its end.
\<close>

fun validate_loop :: "accounts \<Rightarrow> AccountUpdate list \<Rightarrow> bool" where
  "validate_loop accs [] = True"
| "validate_loop accs (u # us) =
     (let current_balance = dict_get accs (AccountUpdate.name u) 0
      in if current_balance + balance_change u < 0 then False else validate_loop accs us)"

text \<open>
  The body of the second loop (lines 39-42). \<^verbatim>\<open>accounts[n] += c\<close> stores
  \<^verbatim>\<open>accounts[n] + c\<close>; the test \<^verbatim>\<open>n in accounts\<close> and the read of \<^verbatim>\<open>accounts[n]\<close> look at
  the same entry, so the read cannot raise \<^verbatim>\<open>KeyError\<close>.
\<close>

definition apply_update :: "accounts \<Rightarrow> AccountUpdate \<Rightarrow> accounts" where
  "apply_update accs u =
     (case map_of accs (AccountUpdate.name u) of
        Some b \<Rightarrow> dict_setitem accs (AccountUpdate.name u) (b + balance_change u)
      | None \<Rightarrow> dict_setitem accs (AccountUpdate.name u) (max 0 (balance_change u)))"

text \<open>The second loop (lines 38-42): the updates are applied in order, each to the dict
  the one before it left.\<close>

fun apply_loop :: "accounts \<Rightarrow> AccountUpdate list \<Rightarrow> accounts" where
  "apply_loop accs [] = accs"
| "apply_loop accs (u # us) = apply_loop (apply_update accs u) us"

text \<open>\<^verbatim>\<open>execute_updates\<close> (lines 30-42): the value returned and the dict after the call.\<close>

definition execute_updates :: "accounts \<Rightarrow> AccountUpdate list \<Rightarrow> pyval \<times> accounts" where
  "execute_updates accs ups =
     (if validate_loop accs ups then (PyNone, apply_loop accs ups) else (PyNone, accs))"

section \<open>Transactions\<close>

datatype error = NotImplementedError

text \<open>
  \<open>Transaction\<close> is the base class, whose \<^verbatim>\<open>updates\<close> raises; \<open>Transfer\<close> is its one
  subclass, with the fields \<^verbatim>\<open>from_acc\<close>, \<^verbatim>\<open>to_acc\<close> and \<^verbatim>\<open>value\<close> (here \<open>amount\<close>).
\<close>

datatype Transaction =
    Transaction
  | Transfer (from_acc: string) (to_acc: string) (amount: int)

text \<open>\<^verbatim>\<open>updates\<close> (lines 46-47 and 56-63).\<close>

fun updates :: "Transaction \<Rightarrow> accounts \<Rightarrow> error + (AccountUpdate list \<times> bool)" where
  "updates Transaction accs = Inl NotImplementedError"
| "updates (Transfer f t v) accs =
     (let from_account = get_account accs f
      in if balance from_account < v then Inr ([], False)
         else Inr ([AccountUpdate f (- v), AccountUpdate t v], True))"

datatype Block = Block (transactions: "Transaction list")

section \<open>The block executor\<close>

text \<open>
  \<^verbatim>\<open>process_transaction\<close> (lines 77-80), run with no other thread in between. An
  exception of \<^verbatim>\<open>updates\<close> ends the task; \<^verbatim>\<open>executor.map\<close> keeps it in a result that
  \<^verbatim>\<open>execute_block\<close> never reads.
\<close>

definition process_transaction :: "Transaction \<Rightarrow> accounts \<Rightarrow> accounts" where
  "process_transaction tx accs =
     (case updates tx accs of
        Inl e \<Rightarrow> accs
      | Inr (ups, success) \<Rightarrow> if success then snd (execute_updates accs ups) else accs)"

text \<open>
  \<^verbatim>\<open>execute_block\<close> hands every transaction of the block to a thread pool
  (\<^verbatim>\<open>executor.map\<close>, line 84), whose worker threads run \<^verbatim>\<open>process_transaction\<close> side by
  side. The dict is read and written under the lock only, so what the threads do to it
  is a sequence of locked steps. A task takes the lock twice, in \<^verbatim>\<open>get_account\<close> (inside
  \<^verbatim>\<open>updates\<close>) and in \<^verbatim>\<open>execute_updates\<close>; between the two, and before the first, the
  thread holds no lock and the interpreter may run any other worker. A task is therefore
  in one of three places: submitted and not yet through \<^verbatim>\<open>updates\<close>; through \<^verbatim>\<open>updates\<close>
  with success, holding the updates it will pass to \<^verbatim>\<open>execute_updates\<close>; or completed.
\<close>

datatype task = Submitted Transaction | Proposed "AccountUpdate list" | Completed

fun task_step :: "accounts \<Rightarrow> task \<Rightarrow> accounts \<times> task" where
  "task_step accs (Submitted tx) =
     (case updates tx accs of
        Inl e \<Rightarrow> (accs, Completed)
      | Inr (ups, success) \<Rightarrow> if success then (accs, Proposed ups) else (accs, Completed))"
| "task_step accs (Proposed ups) = (snd (execute_updates accs ups), Completed)"
| "task_step accs Completed = (accs, Completed)"

text \<open>The pool: the dict and the tasks, in the order of the block. \<open>pool_step i\<close> lets
  task \<open>i\<close> take its next locked step.\<close>

type_synonym pool = "accounts \<times> task list"

definition pool_step :: "pool \<Rightarrow> nat \<Rightarrow> pool" where
  "pool_step p i =
     (case p of (accs, tasks) \<Rightarrow>
        if i < length tasks
        then (case task_step accs (tasks ! i) of (accs', t') \<Rightarrow> (accs', tasks[i := t']))
        else (accs, tasks))"

text \<open>A schedule is the order in which the tasks take their steps.\<close>

definition run_pool :: "pool \<Rightarrow> nat list \<Rightarrow> pool" where
  "run_pool p sched = foldl pool_step p sched"

text \<open>
  Leaving the \<^verbatim>\<open>with ThreadPoolExecutor()\<close> block waits for every task. \<open>join_schedule n\<close>
  gives each of \<open>n\<close> tasks its two steps, in block order; on a completed task a step
  does nothing.
\<close>

definition join_schedule :: "nat \<Rightarrow> nat list" where
  "join_schedule n = concat (map (\<lambda>i. [i, i]) [0..<n])"

text \<open>
  \<^verbatim>\<open>execute_block\<close> (lines 71-86). The source fixes no order among the locked steps of
  different tasks; the order the thread scheduler picks is the parameter \<open>sched\<close>. The
  tasks step in the order \<open>sched\<close> gives, then the ones still running are joined, so
  every \<open>sched\<close> stands for a complete execution, and every execution is the one of the
  schedule that lists its locked steps. With \<open>sched = []\<close> the transactions run one after
  the other in block order. The dict is read back (line 86) after the join.
\<close>

definition execute_block :: "nat list \<Rightarrow> Block \<Rightarrow> AccountValue list \<Rightarrow> AccountValue list" where
  "execute_block sched block vals =
     (let account_state = dict_of_values vals;
          tasks = map Submitted (transactions block);
          final = run_pool (account_state, tasks) (sched @ join_schedule (length tasks))
      in map (\<lambda>(nm, b). AccountValue nm b) (fst final))"

text \<open>The test data of lines 90-122.\<close>

definition account_values_example_1 :: "AccountValue list" where
  "account_values_example_1 =
     [AccountValue ''A'' 20, AccountValue ''B'' 30, AccountValue ''C'' 40]"

definition block_example_1 :: Block where
  "block_example_1 =
     Block [Transfer ''A'' ''B'' 5, Transfer ''B'' ''C'' 10, Transfer ''B'' ''C'' 30]"

definition expected_output_1 :: "AccountValue list" where
  "expected_output_1 =
     [AccountValue ''A'' 15, AccountValue ''B'' 25, AccountValue ''C'' 50]"

definition account_values_example_2 :: "AccountValue list" where
  "account_values_example_2 =
     [AccountValue ''A'' 10, AccountValue ''B'' 20, AccountValue ''C'' 30, AccountValue ''D'' 40]"

definition block_example_2 :: Block where
  "block_example_2 = Block [Transfer ''A'' ''B'' 5, Transfer ''C'' ''D'' 10]"

definition expected_output_2 :: "AccountValue list" where
  "expected_output_2 =
     [AccountValue ''A'' 5, AccountValue ''B'' 25, AccountValue ''C'' 20, AccountValue ''D'' 50]"

section \<open>Observations used in the statements\<close>

text \<open>The sum of all stored balances.\<close>

definition total_balance :: "accounts \<Rightarrow> int" where
  "total_balance accs = sum_list (map snd accs)"

text \<open>Every stored balance is at least 0.\<close>

definition nonneg :: "accounts \<Rightarrow> bool" where
  "nonneg accs = (\<forall>(n, b) \<in> set accs. 0 \<le> b)"

text \<open>The names of a list, each once, in the order of their first occurrence.\<close>

fun first_occurrences :: "string list \<Rightarrow> string list" where
  "first_occurrences [] = []"
| "first_occurrences (x # xs) = x # first_occurrences (filter (\<lambda>y. y \<noteq> x) xs)"

text \<open>
  The creation log: the names for which the second loop of \<^verbatim>\<open>execute_updates\<close> takes its
  \<^verbatim>\<open>else\<close> branch (lines 41-42), in the order in which it takes it; first for one run of
  the loop, then for one step of a task, then for a whole schedule.
\<close>

fun created_loop :: "accounts \<Rightarrow> AccountUpdate list \<Rightarrow> string list" where
  "created_loop accs [] = []"
| "created_loop accs (u # us) =
     (case map_of accs (AccountUpdate.name u) of
        Some b \<Rightarrow> []
      | None \<Rightarrow> [AccountUpdate.name u]) @ created_loop (apply_update accs u) us"

fun created_by_task :: "accounts \<Rightarrow> task \<Rightarrow> string list" where
  "created_by_task accs (Proposed ups) =
     (if validate_loop accs ups then created_loop accs ups else [])"
| "created_by_task accs (Submitted tx) = []"
| "created_by_task accs Completed = []"

fun created_by_run :: "pool \<Rightarrow> nat list \<Rightarrow> string list" where
  "created_by_run p [] = []"
| "created_by_run p (i # sched) =
     (if i < length (snd p) then created_by_task (fst p) (snd p ! i) else [])
       @ created_by_run (pool_step p i) sched"

definition created_by_block :: "nat list \<Rightarrow> Block \<Rightarrow> AccountValue list \<Rightarrow> string list" where
  "created_by_block sched block vals =
     (let tasks = map Submitted (transactions block)
      in created_by_run (dict_of_values vals, tasks) (sched @ join_schedule (length tasks)))"

text \<open>
  The batches \<^verbatim>\<open>Transfer.updates\<close> builds, and the pools in which every stored balance is
  at least 0 and every task waiting for \<^verbatim>\<open>execute_updates\<close> holds such a batch.
\<close>

definition transfer_shaped :: "AccountUpdate list \<Rightarrow> bool" where
  "transfer_shaped ups = (\<exists>f t v. ups = [AccountUpdate f (- v), AccountUpdate t v])"

definition pool_inv :: "pool \<Rightarrow> bool" where
  "pool_inv p = (nonneg (fst p) \<and> (\<forall>ups. Proposed ups \<in> set (snd p) \<longrightarrow> transfer_shaped ups))"

text \<open>
  The pools the first example can be in. Its first transfer is submitted, proposed or
  completed (\<open>d0\<close>: its updates are in the dict). Of the other two at most one is ever
  applied: \<open>w\<close> is \<open>None\<close> while neither is, \<open>Some False\<close> once the transfer of 10 is and
  \<open>Some True\<close> once the transfer of 30 is; the other one is then dropped when it steps.
\<close>

definition scenario_A_pools :: "pool list" where
  "scenario_A_pools =
     [([(''A'', if d0 then 15 else 20),
        (''B'', (if d0 then 35 else 30)
                 - (if w = Some False then 10 else if w = Some True then 30 else 0)),
        (''C'', 40 + (if w = Some False then 10 else if w = Some True then 30 else 0))],
       [t0, t1, t2]).
      (t0, d0) \<leftarrow>
        [(Submitted (Transfer ''A'' ''B'' 5), False),
         (Proposed [AccountUpdate ''A'' (- 5), AccountUpdate ''B'' 5], False),
         (Completed, True)],
      (t1, t2, w) \<leftarrow>
        [(Submitted (Transfer ''B'' ''C'' 10), Submitted (Transfer ''B'' ''C'' 30), None),
         (Submitted (Transfer ''B'' ''C'' 10),
          Proposed [AccountUpdate ''B'' (- 30), AccountUpdate ''C'' 30], None),
         (Proposed [AccountUpdate ''B'' (- 10), AccountUpdate ''C'' 10],
          Submitted (Transfer ''B'' ''C'' 30), None),
         (Proposed [AccountUpdate ''B'' (- 10), AccountUpdate ''C'' 10],
          Proposed [AccountUpdate ''B'' (- 30), AccountUpdate ''C'' 30], None),
         (Completed, Submitted (Transfer ''B'' ''C'' 30), Some False),
         (Completed, Proposed [AccountUpdate ''B'' (- 30), AccountUpdate ''C'' 30], Some False),
         (Completed, Completed, Some False),
         (Submitted (Transfer ''B'' ''C'' 10), Completed, Some True),
         (Proposed [AccountUpdate ''B'' (- 10), AccountUpdate ''C'' 10], Completed, Some True),
         (Completed, Completed, Some True)]]"

text \<open>The pools the second example can be in: its two transfers touch different
  accounts, and each is submitted, proposed or completed.\<close>

definition scenario_B_pools :: "pool list" where
  "scenario_B_pools =
     [([(''A'', if d0 then 5 else 10), (''B'', if d0 then 25 else 20),
        (''C'', if d1 then 20 else 30), (''D'', if d1 then 50 else 40)], [t0, t1]).
      (t0, d0) \<leftarrow>
        [(Submitted (Transfer ''A'' ''B'' 5), False),
         (Proposed [AccountUpdate ''A'' (- 5), AccountUpdate ''B'' 5], False),
         (Completed, True)],
      (t1, d1) \<leftarrow>
        [(Submitted (Transfer ''C'' ''D'' 10), False),
         (Proposed [AccountUpdate ''C'' (- 10), AccountUpdate ''D'' 10], False),
         (Completed, True)]]"

text \<open>The other outcome of the first example: the transfer of 30 went through.\<close>

definition other_output_1 :: "AccountValue list" where
  "other_output_1 = [AccountValue ''A'' 15, AccountValue ''B'' 5, AccountValue ''C'' 70]"

section \<open>The dict operations\<close>

lemma map_of_setitem: "map_of (dict_setitem accs k v) = (map_of accs)(k \<mapsto> v)"
  by (induction accs) (auto simp: fun_eq_iff)

lemma keys_setitem:
  "map fst (dict_setitem accs k v) =
     (if k \<in> set (map fst accs) then map fst accs else map fst accs @ [k])"
  by (induction accs) (force+)

lemma keys_setitem_present:
  "map_of accs k = Some b \<Longrightarrow> map fst (dict_setitem accs k v) = map fst accs"
  by (simp add: keys_setitem map_of_eq_None_iff[symmetric] del: map_of_eq_None_iff)

lemma keys_setitem_absent:
  "map_of accs k = None \<Longrightarrow> map fst (dict_setitem accs k v) = map fst accs @ [k]"
  by (simp add: keys_setitem map_of_eq_None_iff)

lemma setitem_absent: "map_of accs k = None \<Longrightarrow> dict_setitem accs k v = accs @ [(k, v)]"
  by (induction accs) (auto split: if_splits)

lemma distinct_setitem:
  "distinct (map fst accs) \<Longrightarrow> distinct (map fst (dict_setitem accs k v))"
  by (simp add: keys_setitem)

lemma set_setitem: "set (dict_setitem accs k v) \<subseteq> insert (k, v) (set accs)"
  by (induction accs) (auto split: if_splits)

lemma total_setitem:
  "total_balance (dict_setitem accs k v) = total_balance accs - dict_get accs k 0 + v"
  by (induction accs) (auto simp: total_balance_def dict_get_def)

lemma nonneg_setitem: "nonneg accs \<Longrightarrow> 0 \<le> v \<Longrightarrow> nonneg (dict_setitem accs k v)"
  using set_setitem[of accs k v] by (auto simp: nonneg_def)

lemma nonneg_map_of: "nonneg accs \<Longrightarrow> map_of accs k = Some b \<Longrightarrow> 0 \<le> b"
  by (auto simp: nonneg_def dest: map_of_SomeD)

lemma first_occurrences_distinct: "distinct xs \<Longrightarrow> first_occurrences xs = xs"
proof (induction xs)
  case Nil
  then show ?case by simp
next
  case (Cons x xs)
  then have "filter (\<lambda>y. y \<noteq> x) xs = xs"
    by (auto intro: filter_True)
  with Cons show ?case by simp
qed

lemma keys_foldl_setitem:
  "map fst (foldl (\<lambda>accs av. dict_setitem accs (AccountValue.name av) (balance av)) d vals) =
     map fst d @
     first_occurrences (filter (\<lambda>n. n \<notin> set (map fst d)) (map AccountValue.name vals))"
proof (induction vals arbitrary: d)
  case Nil
  then show ?case by simp
next
  case (Cons av vals)
  let ?n = "AccountValue.name av"
  show ?case
  proof (cases "?n \<in> set (map fst d)")
    case True
    then show ?thesis using Cons.IH[of "dict_setitem d ?n (balance av)"]
      by (simp add: keys_setitem)
  next
    case False
    have "filter (\<lambda>n. n \<notin> set (map fst d @ [?n])) (map AccountValue.name vals)
        = filter (\<lambda>y. y \<noteq> ?n)
            (filter (\<lambda>n. n \<notin> set (map fst d)) (map AccountValue.name vals))"
      by (auto intro: filter_cong)
    with False show ?thesis using Cons.IH[of "dict_setitem d ?n (balance av)"]
      by (simp add: keys_setitem)
  qed
qed

lemma keys_dict_of_values:
  "map fst (dict_of_values vals) = first_occurrences (map AccountValue.name vals)"
  by (simp add: dict_of_values_def keys_foldl_setitem)

lemma distinct_foldl_setitem:
  "distinct (map fst d) \<Longrightarrow>
   distinct (map fst
     (foldl (\<lambda>accs av. dict_setitem accs (AccountValue.name av) (balance av)) d vals))"
  by (induction vals arbitrary: d) (simp_all add: distinct_setitem)

lemma distinct_dict_of_values: "distinct (map fst (dict_of_values vals))"
  by (simp add: dict_of_values_def distinct_foldl_setitem)

lemma nonneg_foldl_setitem:
  "nonneg d \<Longrightarrow> \<forall>av \<in> set vals. 0 \<le> balance av \<Longrightarrow>
   nonneg (foldl (\<lambda>accs av. dict_setitem accs (AccountValue.name av) (balance av)) d vals)"
  by (induction vals arbitrary: d) (simp_all add: nonneg_setitem)

lemma nonneg_dict_of_values:
  "\<forall>av \<in> set vals. 0 \<le> balance av \<Longrightarrow> nonneg (dict_of_values vals)"
  using nonneg_foldl_setitem[of "[]" vals] by (simp add: dict_of_values_def nonneg_def)

section \<open>The two loops of execute_updates\<close>

lemma validate_loop_iff:
  "validate_loop accs ups \<longleftrightarrow>
     (\<forall>u \<in> set ups. 0 \<le> dict_get accs (AccountUpdate.name u) 0 + balance_change u)"
  by (induction ups) (auto simp: Let_def)

lemma apply_loop_append: "apply_loop accs (xs @ ys) = apply_loop (apply_loop accs xs) ys"
  by (induction xs arbitrary: accs) auto

lemma map_of_apply_update_other:
  "n \<noteq> AccountUpdate.name u \<Longrightarrow> map_of (apply_update accs u) n = map_of accs n"
  by (auto simp: apply_update_def map_of_setitem split: option.splits)

lemma map_of_apply_loop_None:
  "map_of (apply_loop accs ups) n = None \<Longrightarrow> map_of accs n = None"
proof (induction ups arbitrary: accs)
  case Nil
  then show ?case by simp
next
  case (Cons u us)
  then have "map_of (apply_update accs u) n = None" by simp
  then show ?case
    by (auto simp: apply_update_def map_of_setitem split: option.splits if_splits)
qed

lemma total_apply_update:
  "total_balance (apply_update accs u) =
     total_balance accs +
     (case map_of accs (AccountUpdate.name u) of
        Some b \<Rightarrow> balance_change u
      | None \<Rightarrow> max 0 (balance_change u))"
  by (auto simp: apply_update_def total_setitem dict_get_def split: option.splits)

lemma keys_apply_update:
  "map fst (apply_update accs u) =
     map fst accs @
     (case map_of accs (AccountUpdate.name u) of Some b \<Rightarrow> [] | None \<Rightarrow> [AccountUpdate.name u])"
  by (auto simp: apply_update_def keys_setitem_present keys_setitem_absent split: option.splits)

lemma keys_apply_loop: "map fst (apply_loop accs ups) = map fst accs @ created_loop accs ups"
  by (induction ups arbitrary: accs) (simp_all add: keys_apply_update)

lemma distinct_apply_update:
  "distinct (map fst accs) \<Longrightarrow> distinct (map fst (apply_update accs u))"
  by (auto simp: keys_apply_update map_of_eq_None_iff split: option.splits)

lemma distinct_apply_loop:
  "distinct (map fst accs) \<Longrightarrow> distinct (map fst (apply_loop accs ups))"
  by (induction ups arbitrary: accs) (simp_all add: distinct_apply_update)

text \<open>A batch of the shape \<^verbatim>\<open>Transfer.updates\<close> builds keeps every balance at least 0,
  whether it is applied or rejected.\<close>

lemma nonneg_transfer_batch:
  assumes "nonneg accs"
  shows "nonneg (snd (execute_updates accs [AccountUpdate f (- v), AccountUpdate t v]))"
proof (cases "validate_loop accs [AccountUpdate f (- v), AccountUpdate t v]")
  case False
  with assms show ?thesis by (simp add: execute_updates_def)
next
  case True
  then have f: "0 \<le> dict_get accs f 0 - v" and t: "0 \<le> dict_get accs t 0 + v"
    by (simp_all add: Let_def split: if_splits)
  let ?mid = "apply_update accs (AccountUpdate f (- v))"
  have mid: "nonneg ?mid"
    using assms f
    by (auto simp: apply_update_def dict_get_def intro!: nonneg_setitem split: option.splits)
  have "nonneg (apply_update ?mid (AccountUpdate t v))"
  proof (cases "map_of ?mid t")
    case None
    with mid show ?thesis by (simp add: apply_update_def nonneg_setitem)
  next
    case (Some b')
    have "0 \<le> b' + v"
    proof (cases "t = f")
      case True
      with Some f t show ?thesis
        using nonneg_map_of[OF assms, of f]
        by (auto simp: apply_update_def map_of_setitem dict_get_def split: option.splits)
    next
      case False
      with Some have "map_of accs t = Some b'"
        by (simp add: map_of_apply_update_other)
      with t show ?thesis by (simp add: dict_get_def)
    qed
    with Some mid show ?thesis by (simp add: apply_update_def nonneg_setitem)
  qed
  with True show ?thesis by (simp add: execute_updates_def del: validate_loop.simps)
qed

section \<open>The pool\<close>

lemma keys_task_step: "map fst (fst (task_step accs t)) = map fst accs @ created_by_task accs t"
  by (cases t) (auto simp: execute_updates_def keys_apply_loop split: sum.splits)

lemma keys_pool_step:
  "map fst (fst (pool_step p i)) =
     map fst (fst p) @ (if i < length (snd p) then created_by_task (fst p) (snd p ! i) else [])"
  using keys_task_step[of "fst p" "snd p ! i"]
  by (auto simp: pool_step_def split: prod.splits)

lemma keys_run_pool: "map fst (fst (run_pool p sched)) = map fst (fst p) @ created_by_run p sched"
  unfolding run_pool_def
  by (induction sched arbitrary: p) (simp_all add: keys_pool_step)

lemma distinct_task_step:
  "distinct (map fst accs) \<Longrightarrow> distinct (map fst (fst (task_step accs t)))"
  by (cases t) (auto simp: execute_updates_def distinct_apply_loop split: sum.splits)

lemma distinct_pool_step:
  "distinct (map fst (fst p)) \<Longrightarrow> distinct (map fst (fst (pool_step p i)))"
  using distinct_task_step[of "fst p" "snd p ! i"]
  by (auto simp: pool_step_def split: prod.splits)

lemma distinct_run_pool:
  "distinct (map fst (fst p)) \<Longrightarrow> distinct (map fst (fst (run_pool p sched)))"
  unfolding run_pool_def
  by (induction sched arbitrary: p) (simp_all add: distinct_pool_step)

lemma names_execute_block:
  "map AccountValue.name (execute_block sched block vals) =
     map fst (fst (run_pool (dict_of_values vals, map Submitted (transactions block))
       (sched @ join_schedule (length (transactions block)))))"
  by (simp add: execute_block_def Let_def case_prod_unfold comp_def)

text \<open>Two steps of a task in a row are \<^verbatim>\<open>process_transaction\<close> run undisturbed.\<close>

lemma task_step_twice:
  "task_step (fst (task_step accs (Submitted tx))) (snd (task_step accs (Submitted tx)))
     = (process_transaction tx accs, Completed)"
  by (auto simp: process_transaction_def split: sum.splits)

lemma updates_transfer_shaped: "updates tx accs = Inr (ups, True) \<Longrightarrow> transfer_shaped ups"
  by (cases tx) (auto simp: transfer_shaped_def Let_def split: if_splits)

lemma task_step_inv:
  assumes "nonneg accs" and "\<forall>ups. t = Proposed ups \<longrightarrow> transfer_shaped ups"
  shows "nonneg (fst (task_step accs t)) \<and>
         (\<forall>ups. snd (task_step accs t) = Proposed ups \<longrightarrow> transfer_shaped ups)"
proof (cases t)
  case (Submitted tx)
  with assms(1) show ?thesis
    by (auto split: sum.splits dest: updates_transfer_shaped)
next
  case (Proposed ups)
  with assms(2) obtain f r v where "ups = [AccountUpdate f (- v), AccountUpdate r v]"
    by (auto simp: transfer_shaped_def)
  with Proposed assms(1) show ?thesis by (simp add: nonneg_transfer_batch)
next
  case Completed
  with assms(1) show ?thesis by simp
qed

lemma pool_step_inv: "pool_inv p \<Longrightarrow> pool_inv (pool_step p i)"
proof -
  assume inv: "pool_inv p"
  obtain accs tasks where p: "p = (accs, tasks)" by (cases p)
  show ?thesis
  proof (cases "i < length tasks")
    case False
    with inv p show ?thesis by (simp add: pool_step_def)
  next
    case True
    obtain accs' t' where st: "task_step accs (tasks ! i) = (accs', t')"
      by (cases "task_step accs (tasks ! i)")
    from inv p True have "\<forall>ups. tasks ! i = Proposed ups \<longrightarrow> transfer_shaped ups"
      by (auto simp: pool_inv_def dest: nth_mem)
    with inv p task_step_inv[of accs "tasks ! i"] st
    have a: "nonneg accs'" and t: "\<forall>ups. t' = Proposed ups \<longrightarrow> transfer_shaped ups"
      by (simp_all add: pool_inv_def)
    have "set (tasks[i := t']) \<subseteq> insert t' (set tasks)"
      by (rule set_update_subset_insert)
    with inv p t have "\<forall>ups. Proposed ups \<in> set (tasks[i := t']) \<longrightarrow> transfer_shaped ups"
      by (auto simp: pool_inv_def)
    with a True p st show ?thesis by (simp add: pool_step_def pool_inv_def)
  qed
qed

lemma run_pool_inv: "pool_inv p \<Longrightarrow> pool_inv (run_pool p sched)"
  unfolding run_pool_def
  by (induction sched arbitrary: p) (simp_all add: pool_step_inv)

section \<open>The pools of the two examples\<close>

lemma scenario_A_init:
  "(dict_of_values account_values_example_1, map Submitted (transactions block_example_1))
     \<in> set scenario_A_pools"
  by code_simp

lemma scenario_A_closed:
  "\<forall>p \<in> set scenario_A_pools. \<forall>i \<in> set [0, 1, 2]. pool_step p i \<in> set scenario_A_pools"
  by code_simp

lemma scenario_A_length: "\<forall>p \<in> set scenario_A_pools. length (snd p) = 3"
  by code_simp

lemma scenario_A_join:
  "\<forall>p \<in> set scenario_A_pools.
     map (\<lambda>(nm, b). AccountValue nm b) (fst (run_pool p (join_schedule 3)))
       \<in> set [expected_output_1, other_output_1]"
  by code_simp

lemma scenario_A_step: "p \<in> set scenario_A_pools \<Longrightarrow> pool_step p i \<in> set scenario_A_pools"
proof (cases "i < 3")
  case True
  then have "i \<in> set [0, 1, 2]" by auto
  moreover assume "p \<in> set scenario_A_pools"
  ultimately show ?thesis using scenario_A_closed by blast
next
  case False
  moreover assume p: "p \<in> set scenario_A_pools"
  ultimately have "pool_step p i = p"
    using scenario_A_length by (auto simp: pool_step_def split: prod.splits)
  with p show ?thesis by simp
qed

lemma scenario_A_run: "p \<in> set scenario_A_pools \<Longrightarrow> run_pool p sched \<in> set scenario_A_pools"
  unfolding run_pool_def
  by (induction sched arbitrary: p) (simp_all add: scenario_A_step)

lemma scenario_B_init:
  "(dict_of_values account_values_example_2, map Submitted (transactions block_example_2))
     \<in> set scenario_B_pools"
  by code_simp

lemma scenario_B_closed:
  "\<forall>p \<in> set scenario_B_pools. \<forall>i \<in> set [0, 1]. pool_step p i \<in> set scenario_B_pools"
  by code_simp

lemma scenario_B_length: "\<forall>p \<in> set scenario_B_pools. length (snd p) = 2"
  by code_simp

lemma scenario_B_join:
  "\<forall>p \<in> set scenario_B_pools.
     map (\<lambda>(nm, b). AccountValue nm b) (fst (run_pool p (join_schedule 2))) = expected_output_2"
  by code_simp

lemma scenario_B_step: "p \<in> set scenario_B_pools \<Longrightarrow> pool_step p i \<in> set scenario_B_pools"
proof (cases "i < 2")
  case True
  then have "i \<in> set [0, 1]" by auto
  moreover assume "p \<in> set scenario_B_pools"
  ultimately show ?thesis using scenario_B_closed by blast
next
  case False
  moreover assume p: "p \<in> set scenario_B_pools"
  ultimately have "pool_step p i = p"
    using scenario_B_length by (auto simp: pool_step_def split: prod.splits)
  with p show ?thesis by simp
qed

lemma scenario_B_run: "p \<in> set scenario_B_pools \<Longrightarrow> run_pool p sched \<in> set scenario_B_pools"
  unfolding run_pool_def
  by (induction sched arbitrary: p) (simp_all add: scenario_B_step)

section \<open>The claims\<close>

text \<open>
  C1 (non-negativity for arbitrary batches) fails on the code. The dict \<^verbatim>\<open>{"A": 10}\<close>
  has no negative balance; after \<^verbatim>\<open>get_account("A")\<close> and
  \<^verbatim>\<open>execute_updates([AccountUpdate("A", -6), AccountUpdate("A", -6)])\<close> the first loop has
  accepted both updates, each against the stored 10, and the second loop has stored
  \<open>10 - 6 - 6 = -2\<close>.
\<close>

theorem execute_updates_repeated_name_goes_negative:
  "list_all (\<lambda>(n, b). 0 \<le> b) [(''A'', 10 :: int)] \<and>
   get_account [(''A'', 10)] ''A'' = AccountValue ''A'' 10 \<and>
   validate_loop [(''A'', 10)] [AccountUpdate ''A'' (- 6), AccountUpdate ''A'' (- 6)] \<and>
   snd (execute_updates [(''A'', 10)] [AccountUpdate ''A'' (- 6), AccountUpdate ''A'' (- 6)])
     = [(''A'', - 2)]"
  by (simp add: get_account_def dict_get_def execute_updates_def apply_update_def)

text \<open>
  C2 as stated (\<^verbatim>\<open>execute_updates\<close> returns true for an applied batch and false for a
  rejected one) fails: on \<^verbatim>\<open>{"A": 5}\<close> the batch \<open>[("A", +1)]\<close> is applied and the call
  does not return true, and the batch \<open>[("A", -6)]\<close> is rejected and the call does not
  return false.
\<close>

theorem execute_updates_returns_no_boolean:
  "validate_loop [(''A'', 5)] [AccountUpdate ''A'' 1] \<and>
   snd (execute_updates [(''A'', 5)] [AccountUpdate ''A'' 1]) = [(''A'', 6)] \<and>
   fst (execute_updates [(''A'', 5)] [AccountUpdate ''A'' 1]) \<noteq> PyBool True \<and>
   \<not> validate_loop [(''A'', 5)] [AccountUpdate ''A'' (- 6)] \<and>
   snd (execute_updates [(''A'', 5)] [AccountUpdate ''A'' (- 6)]) = [(''A'', 5)] \<and>
   fst (execute_updates [(''A'', 5)] [AccountUpdate ''A'' (- 6)]) \<noteq> PyBool False"
  by (simp add: dict_get_def execute_updates_def apply_update_def)

text \<open>
  C2, amended: \<^verbatim>\<open>execute_updates\<close> returns \<^verbatim>\<open>None\<close> to its caller for every dict and
  every batch, applied or rejected.
\<close>

theorem execute_updates_returns_None: "fst (execute_updates accs ups) = PyNone"
  by (simp add: execute_updates_def)

text \<open>
  C3: if for some update of the batch the stored balance of its account (0 if absent)
  plus its change is negative, \<^verbatim>\<open>execute_updates\<close> leaves the whole dict as it was.
\<close>

theorem execute_updates_rejects_whole_batch:
  "\<exists>u \<in> set ups. dict_get accs (AccountUpdate.name u) 0 + balance_change u < 0
   \<Longrightarrow> snd (execute_updates accs ups) = accs"
  by (auto simp: execute_updates_def validate_loop_iff)

theorem execute_updates_rejects_whole_batch_witness:
  "(\<exists>u \<in> set [AccountUpdate ''B'' 3, AccountUpdate ''A'' (- 7)].
      dict_get [(''A'', 5), (''B'', 1)] (AccountUpdate.name u) 0 + balance_change u < 0) \<and>
   snd (execute_updates [(''A'', 5), (''B'', 1)] [AccountUpdate ''B'' 3, AccountUpdate ''A'' (- 7)])
     = [(''A'', 5), (''B'', 1)]"
proof -
  have h: "\<exists>u \<in> set [AccountUpdate ''B'' 3, AccountUpdate ''A'' (- 7)].
      dict_get [(''A'', 5), (''B'', 1)] (AccountUpdate.name u) 0 + balance_change u < 0"
    by (simp add: dict_get_def)
  from execute_updates_rejects_whole_batch[OF h] h show ?thesis by simp
qed

text \<open>
  C4: when \<^verbatim>\<open>updates\<close> of a Transfer returns success on some dict \<open>seen\<close>, and its batch
  then passes the first loop of \<^verbatim>\<open>execute_updates\<close> on the dict \<open>accs\<close> (which other tasks
  may have changed in between), the sum of all stored balances after the call equals
  the sum before it. No exception is needed: the theorem holds for every such Transfer.
\<close>

theorem transfer_conserves_total_balance:
  assumes "updates (Transfer f t v) seen = Inr (ups, True)" and "validate_loop accs ups"
  shows "total_balance (snd (execute_updates accs ups)) = total_balance accs"
proof -
  from assms(1) have ups: "ups = [AccountUpdate f (- v), AccountUpdate t v]"
    by (auto simp: Let_def split: if_splits)
  from assms(2) have f: "0 \<le> dict_get accs f 0 - v" and t: "0 \<le> dict_get accs t 0 + v"
    by (simp_all add: ups Let_def split: if_splits)
  let ?mid = "apply_update accs (AccountUpdate f (- v))"
  have mid: "total_balance ?mid = total_balance accs - v"
    using f by (auto simp: total_apply_update dict_get_def split: option.splits)
  have "map_of ?mid t = None \<Longrightarrow> 0 \<le> v"
    using t
    by (auto simp: apply_update_def map_of_setitem dict_get_def split: option.splits if_splits)
  then have "total_balance (apply_update ?mid (AccountUpdate t v)) = total_balance ?mid + v"
    by (auto simp: total_apply_update split: option.splits)
  with mid show ?thesis using assms(2) by (simp add: execute_updates_def ups)
qed

theorem transfer_conserves_total_balance_witness:
  "updates (Transfer ''A'' ''Z'' 5) [(''A'', 20), (''B'', 30)]
     = Inr ([AccountUpdate ''A'' (- 5), AccountUpdate ''Z'' 5], True) \<and>
   validate_loop [(''A'', 12), (''B'', 38)] [AccountUpdate ''A'' (- 5), AccountUpdate ''Z'' 5] \<and>
   snd (execute_updates [(''A'', 12), (''B'', 38)]
          [AccountUpdate ''A'' (- 5), AccountUpdate ''Z'' 5])
     = [(''A'', 7), (''B'', 38), (''Z'', 5)] \<and>
   total_balance [(''A'', 7), (''B'', 38), (''Z'', 5)] = total_balance [(''A'', 12), (''B'', 38)]"
proof -
  have p: "updates (Transfer ''A'' ''Z'' 5) [(''A'', 20), (''B'', 30)]
     = Inr ([AccountUpdate ''A'' (- 5), AccountUpdate ''Z'' 5], True)"
    by (simp add: get_account_def dict_get_def)
  have v: "validate_loop [(''A'', 12), (''B'', 38)]
      [AccountUpdate ''A'' (- 5), AccountUpdate ''Z'' 5]"
    by (simp add: dict_get_def)
  have e: "snd (execute_updates [(''A'', 12), (''B'', 38)]
      [AccountUpdate ''A'' (- 5), AccountUpdate ''Z'' 5])
     = [(''A'', 7), (''B'', 38), (''Z'', 5)]"
    by (simp add: execute_updates_def dict_get_def apply_update_def)
  from transfer_conserves_total_balance[OF p v] p v e show ?thesis by simp
qed

text \<open>
  C5 (scenario A gives \<^verbatim>\<open>{A:15, B:25, C:50}\<close> in every execution) fails on the code. The
  pool may let the third task, \<open>Transfer B C 30\<close>, take both its steps before the second
  one runs: B still holds 30, the transfer goes through and leaves B with 0, and
  \<open>Transfer B C 10\<close> is then the one that is dropped. The result is
  \<^verbatim>\<open>{A:15, B:5, C:70}\<close>, against the assertions of \<^verbatim>\<open>test_case\<close> (lines 124-133).
\<close>

theorem scenario_A_third_transfer_first:
  "run_pool (dict_of_values account_values_example_1,
             map Submitted (transactions block_example_1)) [2, 2]
     = ([(''A'', 20), (''B'', 0), (''C'', 70)],
        [Submitted (Transfer ''A'' ''B'' 5), Submitted (Transfer ''B'' ''C'' 10), Completed]) \<and>
   execute_block [2, 2] block_example_1 account_values_example_1
     = [AccountValue ''A'' 15, AccountValue ''B'' 5, AccountValue ''C'' 70] \<and>
   execute_block [2, 2] block_example_1 account_values_example_1 \<noteq> expected_output_1"
  by code_simp

text \<open>
  C6: \<^verbatim>\<open>Transfer.updates\<close> returns the empty list and false when the balance read for the
  source is below the amount, and otherwise exactly the two updates \<open>(from, -amount)\<close>,
  \<open>(to, +amount)\<close> and true.
\<close>

theorem transfer_updates_result:
  "(balance (get_account accs f) < v \<longrightarrow> updates (Transfer f t v) accs = Inr ([], False)) \<and>
   (\<not> balance (get_account accs f) < v \<longrightarrow>
      updates (Transfer f t v) accs = Inr ([AccountUpdate f (- v), AccountUpdate t v], True))"
  by (simp add: Let_def)

theorem transfer_updates_result_witness:
  "balance (get_account [(''A'', 20)] ''A'') < 30 \<and>
   updates (Transfer ''A'' ''B'' 30) [(''A'', 20)] = Inr ([], False) \<and>
   \<not> balance (get_account [(''A'', 20)] ''A'') < 20 \<and>
   updates (Transfer ''A'' ''B'' 20) [(''A'', 20)]
     = Inr ([AccountUpdate ''A'' (- 20), AccountUpdate ''B'' 20], True)"
proof -
  have lt: "balance (get_account [(''A'', 20)] ''A'') < 30"
    and ge: "\<not> balance (get_account [(''A'', 20)] ''A'') < 20"
    by (simp_all add: get_account_def dict_get_def)
  from transfer_updates_result[of "[(''A'', 20)]" "''A''" 30 "''B''"]
    transfer_updates_result[of "[(''A'', 20)]" "''A''" 20 "''B''"] lt ge
  show ?thesis by blast
qed

text \<open>
  C7 as stated fails in its last part: an update with a negative change for an account
  that is not in the dict does not create the account with balance 0. On \<^verbatim>\<open>{"A": 6}\<close> the
  batch \<open>[("Z", -4)]\<close> fails the check of line 35 (\<open>0 + (-4) < 0\<close>), \<^verbatim>\<open>execute_updates\<close>
  returns before its second loop, and \<open>Z\<close> is still absent afterwards.
\<close>

theorem negative_new_account_is_not_created:
  "map_of [(''A'', 6 :: int)] ''Z'' = None \<and>
   balance_change (AccountUpdate ''Z'' (- 4)) < 0 \<and>
   \<not> validate_loop [(''A'', 6)] [AccountUpdate ''Z'' (- 4)] \<and>
   execute_updates [(''A'', 6)] [AccountUpdate ''Z'' (- 4)] = (PyNone, [(''A'', 6)]) \<and>
   map_of (snd (execute_updates [(''A'', 6)] [AccountUpdate ''Z'' (- 4)])) ''Z'' \<noteq> Some 0"
  by (simp add: dict_get_def execute_updates_def)

text \<open>
  C7, amended: in a batch that passes validation, every update \<open>u\<close> is applied by the
  second loop to the dict the updates before it have left. If the account of \<open>u\<close> exists
  there, its balance is increased by the change and it keeps its place; if it does not,
  the change is 0 or more and the account is put at the end of the dict with balance
  \<open>max 0 change\<close>, which is the change itself; no other account is touched. A batch that
  holds an update with a negative change for an account absent from the dict does not
  pass validation: \<^verbatim>\<open>execute_updates\<close> leaves the dict as it was, the account is not
  created, and no error is raised.
\<close>

theorem account_creation_in_validated_batch:
  "(validate_loop accs (pre @ u # post) \<longrightarrow>
      snd (execute_updates accs (pre @ u # post)) =
        apply_loop (apply_update (apply_loop accs pre) u) post \<and>
      (\<forall>b. map_of (apply_loop accs pre) (AccountUpdate.name u) = Some b \<longrightarrow>
         map_of (apply_update (apply_loop accs pre) u) (AccountUpdate.name u)
           = Some (b + balance_change u) \<and>
         map fst (apply_update (apply_loop accs pre) u) = map fst (apply_loop accs pre)) \<and>
      (map_of (apply_loop accs pre) (AccountUpdate.name u) = None \<longrightarrow>
         0 \<le> balance_change u \<and>
         max 0 (balance_change u) = balance_change u \<and>
         apply_update (apply_loop accs pre) u =
           apply_loop accs pre @ [(AccountUpdate.name u, max 0 (balance_change u))]) \<and>
      (\<forall>n. n \<noteq> AccountUpdate.name u \<longrightarrow>
         map_of (apply_update (apply_loop accs pre) u) n = map_of (apply_loop accs pre) n)) \<and>
   (u \<in> set ups \<and> map_of accs (AccountUpdate.name u) = None \<and> balance_change u < 0 \<longrightarrow>
      \<not> validate_loop accs ups \<and>
      snd (execute_updates accs ups) = accs \<and>
      map_of (snd (execute_updates accs ups)) (AccountUpdate.name u) = None)"
proof (intro conjI impI allI)
  assume v: "validate_loop accs (pre @ u # post)"
  then show "snd (execute_updates accs (pre @ u # post)) =
      apply_loop (apply_update (apply_loop accs pre) u) post"
    by (simp add: execute_updates_def apply_loop_append)
  {
    assume n: "map_of (apply_loop accs pre) (AccountUpdate.name u) = None"
    then have "map_of accs (AccountUpdate.name u) = None"
      by (rule map_of_apply_loop_None)
    with v show nn: "0 \<le> balance_change u"
      by (simp add: validate_loop_iff dict_get_def)
    then show "max 0 (balance_change u) = balance_change u" by simp
    from n show "apply_update (apply_loop accs pre) u =
        apply_loop accs pre @ [(AccountUpdate.name u, max 0 (balance_change u))]"
      by (simp add: apply_update_def setitem_absent)
  }
next
  fix b
  assume s: "map_of (apply_loop accs pre) (AccountUpdate.name u) = Some b"
  then show "map_of (apply_update (apply_loop accs pre) u) (AccountUpdate.name u)
      = Some (b + balance_change u)"
    by (simp add: apply_update_def map_of_setitem)
  from s show "map fst (apply_update (apply_loop accs pre) u) = map fst (apply_loop accs pre)"
    by (simp add: apply_update_def keys_setitem_present)
next
  fix n
  assume "n \<noteq> AccountUpdate.name u"
  then show "map_of (apply_update (apply_loop accs pre) u) n = map_of (apply_loop accs pre) n"
    by (rule map_of_apply_update_other)
next
  assume a: "u \<in> set ups \<and> map_of accs (AccountUpdate.name u) = None \<and> balance_change u < 0"
  then show r: "\<not> validate_loop accs ups"
    by (auto simp: validate_loop_iff dict_get_def intro!: bexI[of _ u])
  then show "snd (execute_updates accs ups) = accs"
    by (simp add: execute_updates_def)
  with a show "map_of (snd (execute_updates accs ups)) (AccountUpdate.name u) = None"
    by simp
qed

theorem account_creation_in_validated_batch_witness:
  "validate_loop [(''A'', 5)]
     [AccountUpdate ''A'' 1, AccountUpdate ''Z'' 4, AccountUpdate ''A'' (- 2)] \<and>
   snd (execute_updates [(''A'', 5)]
          [AccountUpdate ''A'' 1, AccountUpdate ''Z'' 4, AccountUpdate ''A'' (- 2)])
     = [(''A'', 4), (''Z'', 4)] \<and>
   map_of (apply_loop [(''A'', 5)] [AccountUpdate ''A'' 1]) ''Z'' = None \<and>
   apply_update (apply_loop [(''A'', 5)] [AccountUpdate ''A'' 1]) (AccountUpdate ''Z'' 4)
     = [(''A'', 6)] @ [(''Z'', 4)] \<and>
   map_of (apply_loop [(''A'', 5)] [AccountUpdate ''A'' 1, AccountUpdate ''Z'' 4]) ''A'' = Some 6 \<and>
   map_of (apply_update (apply_loop [(''A'', 5)] [AccountUpdate ''A'' 1, AccountUpdate ''Z'' 4])
            (AccountUpdate ''A'' (- 2))) ''A'' = Some 4 \<and>
   map_of (apply_update (apply_loop [(''A'', 5)] [AccountUpdate ''A'' 1, AccountUpdate ''Z'' 4])
            (AccountUpdate ''A'' (- 2))) ''Z'' = Some 4 \<and>
   AccountUpdate ''Z'' (- 4) \<in> set [AccountUpdate ''A'' 1, AccountUpdate ''Z'' (- 4)] \<and>
   map_of [(''A'', 6 :: int)] ''Z'' = None \<and>
   snd (execute_updates [(''A'', 6)] [AccountUpdate ''A'' 1, AccountUpdate ''Z'' (- 4)])
     = [(''A'', 6)]"
proof -
  have v1: "validate_loop [(''A'', 5)]
      ([AccountUpdate ''A'' 1] @ AccountUpdate ''Z'' 4 # [AccountUpdate ''A'' (- 2)])"
    and v2: "validate_loop [(''A'', 5)]
      ([AccountUpdate ''A'' 1, AccountUpdate ''Z'' 4] @ AccountUpdate ''A'' (- 2) # [])"
    by (simp_all add: dict_get_def)
  have l1: "apply_loop [(''A'', 5)] [AccountUpdate ''A'' 1] = [(''A'', 6)]"
    and l2: "apply_loop [(''A'', 5)] [AccountUpdate ''A'' 1, AccountUpdate ''Z'' 4]
      = [(''A'', 6), (''Z'', 4)]"
    by (simp_all add: apply_update_def)
  have m: "AccountUpdate ''Z'' (- 4) \<in> set [AccountUpdate ''A'' 1, AccountUpdate ''Z'' (- 4)]"
    and n: "map_of [(''A'', 6 :: int)] ''Z'' = None"
    and c: "''Z'' \<noteq> ''A''"
    by simp_all
  from account_creation_in_validated_batch[of "[(''A'', 5)]" "[AccountUpdate ''A'' 1]"
      "AccountUpdate ''Z'' 4" "[AccountUpdate ''A'' (- 2)]" "[]"]
    account_creation_in_validated_batch[of "[(''A'', 5)]"
      "[AccountUpdate ''A'' 1, AccountUpdate ''Z'' 4]" "AccountUpdate ''A'' (- 2)" "[]" "[]"]
    account_creation_in_validated_batch[of "[(''A'', 6)]" "[]" "AccountUpdate ''Z'' (- 4)" "[]"
      "[AccountUpdate ''A'' 1, AccountUpdate ''Z'' (- 4)]"]
    v1 v2 l1 l2 m n c
  show ?thesis by (simp add: apply_update_def)
qed

text \<open>
  C8: for a Transfer whose source is absent from the dict and whose amount is positive,
  \<^verbatim>\<open>get_account\<close> reads balance 0, \<^verbatim>\<open>updates\<close> returns no updates and false, and the
  transaction leaves the dict as it was: \<^verbatim>\<open>process_transaction\<close> changes nothing, and in
  the pool the task completes at its first step without calling \<^verbatim>\<open>execute_updates\<close>.
\<close>

theorem unknown_source_transfer:
  assumes "map_of accs f = None" and "0 < v"
  shows "get_account accs f = AccountValue f 0 \<and>
         updates (Transfer f t v) accs = Inr ([], False) \<and>
         process_transaction (Transfer f t v) accs = accs \<and>
         task_step accs (Submitted (Transfer f t v)) = (accs, Completed)"
  using assms by (simp add: get_account_def dict_get_def process_transaction_def)

theorem unknown_source_transfer_witness:
  "map_of [(''A'', 20 :: int)] ''X'' = None \<and> (0 :: int) < 5 \<and>
   get_account [(''A'', 20)] ''X'' = AccountValue ''X'' 0 \<and>
   updates (Transfer ''X'' ''A'' 5) [(''A'', 20)] = Inr ([], False) \<and>
   process_transaction (Transfer ''X'' ''A'' 5) [(''A'', 20)] = [(''A'', 20)] \<and>
   task_step [(''A'', 20)] (Submitted (Transfer ''X'' ''A'' 5)) = ([(''A'', 20)], Completed)"
proof -
  have a: "map_of [(''A'', 20 :: int)] ''X'' = None" by simp
  have p: "(0 :: int) < 5" by simp
  from unknown_source_transfer[OF a p, of "''A''"] a p show ?thesis by blast
qed

text \<open>
  C9: for every block, every initial list and every schedule of the pool, the names of
  the list \<^verbatim>\<open>execute_block\<close> returns are the names present at construction, in input
  order (each at its first occurrence; the input names themselves when they are
  distinct), followed by the names created during execution, in the order in which they
  were created; no name is listed twice.
\<close>

theorem execute_block_result_order:
  "map AccountValue.name (execute_block sched block vals) =
     first_occurrences (map AccountValue.name vals) @ created_by_block sched block vals \<and>
   distinct (map AccountValue.name (execute_block sched block vals)) \<and>
   (distinct (map AccountValue.name vals) \<longrightarrow>
      first_occurrences (map AccountValue.name vals) = map AccountValue.name vals)"
proof -
  let ?p = "(dict_of_values vals, map Submitted (transactions block))"
  let ?s = "sched @ join_schedule (length (transactions block))"
  have names: "map AccountValue.name (execute_block sched block vals)
      = map fst (fst (run_pool ?p ?s))"
    by (rule names_execute_block)
  have order: "map fst (fst (run_pool ?p ?s)) =
      first_occurrences (map AccountValue.name vals) @ created_by_block sched block vals"
    by (simp add: keys_run_pool keys_dict_of_values created_by_block_def)
  have dist: "distinct (map fst (fst (run_pool ?p ?s)))"
    by (rule distinct_run_pool) (simp add: distinct_dict_of_values)
  from names order dist show ?thesis
    using first_occurrences_distinct[of "map AccountValue.name vals"] by metis
qed

theorem execute_block_result_order_witness:
  "distinct (map AccountValue.name account_values_example_1) \<and>
   map AccountValue.name
     (execute_block [1, 1] (Block [Transfer ''A'' ''Z'' 5, Transfer ''B'' ''Y'' 1])
        account_values_example_1)
     = [''A'', ''B'', ''C''] @ [''Y'', ''Z''] \<and>
   created_by_block [1, 1] (Block [Transfer ''A'' ''Z'' 5, Transfer ''B'' ''Y'' 1])
     account_values_example_1 = [''Y'', ''Z'']"
proof -
  have d: "distinct (map AccountValue.name account_values_example_1)"
    and m: "map AccountValue.name account_values_example_1 = [''A'', ''B'', ''C'']"
    by (simp_all add: account_values_example_1_def)
  have c: "created_by_block [1, 1] (Block [Transfer ''A'' ''Z'' 5, Transfer ''B'' ''Y'' 1])
      account_values_example_1 = [''Y'', ''Z'']"
    by code_simp
  from execute_block_result_order[of "[1, 1]"
      "Block [Transfer ''A'' ''Z'' 5, Transfer ''B'' ''Y'' 1]" account_values_example_1]
    d m c
  show ?thesis by simp
qed

text \<open>
  C10: the first loop of \<^verbatim>\<open>execute_updates\<close> accepts a batch exactly when every update,
  taken alone, keeps the balance stored before the batch at 0 or more; updates earlier in
  the batch play no part. So there are a dict without negative balances and a batch of
  two updates of one account that is accepted and leaves that account negative.
\<close>

theorem validation_ignores_earlier_updates:
  "(validate_loop accs ups \<longleftrightarrow>
      (\<forall>u \<in> set ups. 0 \<le> dict_get accs (AccountUpdate.name u) 0 + balance_change u)) \<and>
   (\<exists>accs' ups' n c1 c2 b.
      nonneg accs' \<and>
      ups' = [AccountUpdate n c1, AccountUpdate n c2] \<and>
      validate_loop accs' ups' \<and>
      (n, b) \<in> set (snd (execute_updates accs' ups')) \<and> b < 0)"
proof
  show "validate_loop accs ups \<longleftrightarrow>
      (\<forall>u \<in> set ups. 0 \<le> dict_get accs (AccountUpdate.name u) 0 + balance_change u)"
    by (rule validate_loop_iff)
next
  have "nonneg [(''A'', 5)] \<and>
      validate_loop [(''A'', 5)] [AccountUpdate ''A'' (- 3), AccountUpdate ''A'' (- 3)] \<and>
      (''A'', - 1) \<in> set (snd (execute_updates [(''A'', 5)]
          [AccountUpdate ''A'' (- 3), AccountUpdate ''A'' (- 3)])) \<and>
      (- 1 :: int) < 0"
    by (simp add: nonneg_def dict_get_def execute_updates_def apply_update_def)
  then show "\<exists>accs' ups' n c1 c2 b.
      nonneg accs' \<and>
      ups' = [AccountUpdate n c1, AccountUpdate n c2] \<and>
      validate_loop accs' ups' \<and>
      (n, b) \<in> set (snd (execute_updates accs' ups')) \<and> b < 0"
    by blast
qed

theorem validation_ignores_earlier_updates_witness:
  "validate_loop [(''A'', 5)] [AccountUpdate ''A'' (- 3), AccountUpdate ''A'' (- 3)] \<and>
   0 \<le> dict_get [(''A'', 5)] ''A'' 0 + (- 3) \<and>
   snd (execute_updates [(''A'', 5)] [AccountUpdate ''A'' (- 3), AccountUpdate ''A'' (- 3)])
     = [(''A'', - 1)]"
proof -
  have e: "snd (execute_updates [(''A'', 5)]
      [AccountUpdate ''A'' (- 3), AccountUpdate ''A'' (- 3)]) = [(''A'', - 1)]"
    and g: "0 \<le> dict_get [(''A'', 5)] ''A'' 0 + (- 3)"
    by (simp_all add: dict_get_def execute_updates_def apply_update_def)
  from validation_ignores_earlier_updates[of "[(''A'', 5)]"
      "[AccountUpdate ''A'' (- 3), AccountUpdate ''A'' (- 3)]"] e g
  show ?thesis by simp
qed

section \<open>Further properties of the executor\<close>

text \<open>
  X1: through \<^verbatim>\<open>execute_block\<close> the balances stay at 0 or more. For every block, every
  schedule of the pool and every initial list without a negative balance, no balance of
  the result is negative: the batches of \<^verbatim>\<open>Transfer.updates\<close> name an account twice only
  when source and destination coincide, and then the two changes cancel.
\<close>

theorem transfers_keep_balances_nonnegative:
  assumes "\<forall>av \<in> set vals. 0 \<le> balance av"
  shows "\<forall>av \<in> set (execute_block sched block vals). 0 \<le> balance av"
proof -
  let ?p = "(dict_of_values vals, map Submitted (transactions block))"
  have "pool_inv ?p"
    using assms by (auto simp: pool_inv_def nonneg_dict_of_values)
  then have "pool_inv (run_pool ?p (sched @ join_schedule (length (transactions block))))"
    by (rule run_pool_inv)
  then show ?thesis
    by (auto simp: execute_block_def Let_def pool_inv_def nonneg_def)
qed

theorem transfers_keep_balances_nonnegative_witness:
  "list_all (\<lambda>av. 0 \<le> balance av) account_values_example_1 \<and>
   list_all (\<lambda>av. 0 \<le> balance av)
     (execute_block [2, 2] block_example_1 account_values_example_1)"
proof -
  have h: "\<forall>av \<in> set account_values_example_1. 0 \<le> balance av"
    by (simp add: account_values_example_1_def)
  from transfers_keep_balances_nonnegative[OF h, of "[2, 2]" block_example_1] h
  show ?thesis by (simp add: list_all_iff)
qed

text \<open>
  X2: the clamp of line 42 is never needed in a batch that passed validation. When the
  second loop reaches an update whose account is not in the dict, the account was not
  there during validation either, so the change is 0 or more and \<open>max 0 change\<close> is the
  change itself.
\<close>

theorem validated_batch_never_clamps:
  assumes "validate_loop accs (pre @ u # post)"
    and "map_of (apply_loop accs pre) (AccountUpdate.name u) = None"
  shows "0 \<le> balance_change u \<and>
         apply_update (apply_loop accs pre) u =
           apply_loop accs pre @ [(AccountUpdate.name u, balance_change u)]"
proof -
  from assms(2) have "map_of accs (AccountUpdate.name u) = None"
    by (rule map_of_apply_loop_None)
  with assms(1) have "0 \<le> balance_change u"
    by (simp add: validate_loop_iff dict_get_def)
  with assms(2) show ?thesis by (simp add: apply_update_def setitem_absent)
qed

theorem validated_batch_never_clamps_witness:
  "validate_loop [(''A'', 5)] [AccountUpdate ''A'' 1, AccountUpdate ''Z'' 4] \<and>
   map_of (apply_loop [(''A'', 5)] [AccountUpdate ''A'' 1]) ''Z'' = None \<and>
   apply_update (apply_loop [(''A'', 5)] [AccountUpdate ''A'' 1]) (AccountUpdate ''Z'' 4)
     = [(''A'', 6), (''Z'', 4)]"
proof -
  have v: "validate_loop [(''A'', 5)] ([AccountUpdate ''A'' 1] @ AccountUpdate ''Z'' 4 # [])"
    by (simp add: dict_get_def)
  have a: "apply_loop [(''A'', 5)] [AccountUpdate ''A'' 1] = [(''A'', 6)]"
    by (simp add: apply_update_def)
  have n: "map_of (apply_loop [(''A'', 5)] [AccountUpdate ''A'' 1])
      (AccountUpdate.name (AccountUpdate ''Z'' 4)) = None"
    by (simp add: apply_update_def)
  from validated_batch_never_clamps[OF v n] v n a show ?thesis by simp
qed

text \<open>
  X3: with the transactions run one after the other in block order, the first example
  gives the expected output of the source's test.
\<close>

theorem scenario_A_in_block_order:
  "execute_block [] block_example_1 account_values_example_1 = expected_output_1"
  by code_simp

text \<open>
  X4: whatever the schedule of the pool, the first example ends in one of two results:
  the expected one, or the one in which the transfer of 30 went through.
\<close>

theorem scenario_A_outcomes:
  "execute_block sched block_example_1 account_values_example_1 = expected_output_1 \<or>
   execute_block sched block_example_1 account_values_example_1 = other_output_1"
proof -
  let ?p = "(dict_of_values account_values_example_1,
             map Submitted (transactions block_example_1))"
  have len: "length (transactions block_example_1) = 3"
    by (simp add: block_example_1_def)
  have "run_pool ?p sched \<in> set scenario_A_pools"
    using scenario_A_init by (rule scenario_A_run)
  with scenario_A_join
  have "map (\<lambda>(nm, b). AccountValue nm b)
          (fst (run_pool (run_pool ?p sched) (join_schedule 3)))
        \<in> set [expected_output_1, other_output_1]"
    by blast
  then show ?thesis
    by (simp add: execute_block_def Let_def len run_pool_def)
qed

text \<open>
  X5: the second example, whose two transfers touch different accounts, gives the expected
  output of the source's test under every schedule of the pool.
\<close>

theorem scenario_B_every_schedule:
  "execute_block sched block_example_2 account_values_example_2 = expected_output_2"
proof -
  let ?p = "(dict_of_values account_values_example_2,
             map Submitted (transactions block_example_2))"
  have len: "length (transactions block_example_2) = 2"
    by (simp add: block_example_2_def)
  have "run_pool ?p sched \<in> set scenario_B_pools"
    using scenario_B_init by (rule scenario_B_run)
  with scenario_B_join
  have "map (\<lambda>(nm, b). AccountValue nm b)
          (fst (run_pool (run_pool ?p sched) (join_schedule 2))) = expected_output_2"
    by blast
  then show ?thesis
    by (simp add: execute_block_def Let_def len run_pool_def)
qed

text \<open>
  X6: a transfer of an amount the source can pay, to a name that is not in the dict, run
  undisturbed, takes the amount from the source and puts the new account at the end of
  the dict with exactly the amount transferred.
\<close>

theorem new_account_credit:
  assumes "map_of accs f = Some b" and "0 \<le> v" and "v \<le> b" and "map_of accs t = None"
  shows "process_transaction (Transfer f t v) accs = dict_setitem accs f (b - v) @ [(t, v)]"
proof -
  from assms have ne: "t \<noteq> f" by auto
  have absent: "map_of (dict_setitem accs f (b - v)) t = None"
    using assms(4) ne by (simp add: map_of_setitem)
  from assms absent show ?thesis
    by (simp add: process_transaction_def get_account_def dict_get_def execute_updates_def
        apply_update_def setitem_absent)
qed

theorem new_account_credit_witness:
  "map_of [(''A'', 20 :: int)] ''A'' = Some 20 \<and> (0 :: int) \<le> 5 \<and> (5 :: int) \<le> 20 \<and>
   map_of [(''A'', 20 :: int)] ''Z'' = None \<and>
   process_transaction (Transfer ''A'' ''Z'' 5) [(''A'', 20)] = [(''A'', 15), (''Z'', 5)]"
proof -
  have s: "map_of [(''A'', 20 :: int)] ''A'' = Some 20"
    and n: "map_of [(''A'', 20 :: int)] ''Z'' = None"
    and p: "(0 :: int) \<le> 5" and q: "(5 :: int) \<le> 20"
    by simp_all
  from new_account_credit[OF s p q n] s n show ?thesis by simp
qed

end
